theory Spec2Isabelle
  imports Complex_Main "HOL-Library.Word" "HOL-Library.Sublist"
begin

section \<open>Python values shared by the model\<close>

text \<open>
  Exceptions of the Python source are values.  An operation that mutates its object before
  it raises keeps the mutation, so a fallible method returns its outcome together with the
  object as the call left it.
\<close>

datatype py_error = IndexError | KeyError | Full | Empty

datatype 'a outcome = Returned 'a | Raised py_error

section \<open>\<open>GameLogic\<close> (processes/game_controller.py)\<close>

text \<open>The five strings stored in \<open>GameLogic.state\<close> and the three strings \<open>check_input\<close> returns.\<close>

datatype phase = WAITING | SHOWING | PLAYING | WIN | LOSE

datatype verdict = GAME_OVER | WIN_LEVEL | CORRECT

record GameLogic =
  sequence :: "int list"
  player_input :: "int list"
  level :: int
  state :: phase

text \<open>\<open>GameLogic.__init__\<close>.\<close>

definition GameLogic_init :: GameLogic where
  "GameLogic_init = \<lparr>sequence = [], player_input = [], level = 0, state = WAITING\<rparr>"

text \<open>
  \<open>add_to_sequence\<close>: the value drawn by \<open>random.randint(0, 2)\<close> is the argument
  \<open>new_led\<close>.
\<close>

definition add_to_sequence :: "int \<Rightarrow> GameLogic \<Rightarrow> GameLogic" where
  "add_to_sequence new_led g =
     g\<lparr>sequence := sequence g @ [new_led], level := level g + 1\<rparr>"

definition start_new_game :: "int \<Rightarrow> GameLogic \<Rightarrow> GameLogic" where
  "start_new_game new_led g =
     add_to_sequence new_led
       (g\<lparr>sequence := [], player_input := [], level := 0, state := SHOWING\<rparr>)"

text \<open>
  \<open>check_input\<close>: the append comes first, then \<open>current_pos = len(player_input) - 1\<close>
  (never negative after the append), then the read \<open>sequence[current_pos]\<close>, which raises
  \<open>IndexError\<close> when \<open>current_pos\<close> is not below \<open>len(sequence)\<close>.
\<close>

definition check_input :: "int \<Rightarrow> GameLogic \<Rightarrow> verdict outcome \<times> GameLogic" where
  "check_input button_index g =
     (let g1 = g\<lparr>player_input := player_input g @ [button_index]\<rparr>;
          current_pos = length (player_input g1) - 1
      in if length (sequence g1) \<le> current_pos then (Raised IndexError, g1)
         else if player_input g1 ! current_pos \<noteq> sequence g1 ! current_pos
           then (Returned GAME_OVER, g1\<lparr>state := LOSE\<rparr>)
         else if length (player_input g1) = length (sequence g1)
           then (Returned WIN_LEVEL, g1\<lparr>player_input := [], state := WIN\<rparr>)
         else (Returned CORRECT, g1))"

definition next_level :: "int \<Rightarrow> GameLogic \<Rightarrow> GameLogic" where
  "next_level new_led g =
     (add_to_sequence new_led g)\<lparr>player_input := [], state := SHOWING\<rparr>"

definition reset :: "GameLogic \<Rightarrow> GameLogic" where
  "reset g = g\<lparr>sequence := [], player_input := [], level := 0, state := WAITING\<rparr>"

text \<open>The relation between \<open>level\<close> and \<open>sequence\<close> that the operations maintain.\<close>

definition level_counts_sequence :: "GameLogic \<Rightarrow> bool" where
  "level_counts_sequence g \<longleftrightarrow> level g = int (length (sequence g))"

section \<open>\<open>GameControllerProcess\<close> (processes/game_controller.py)\<close>

text \<open>
  \<open>score\<close> and \<open>high_score\<close> are \<open>mp.Value('i', 0)\<close>: C \<open>int\<close>s, read as signed 32-bit
  values and stored without an overflow check, so \<open>+=\<close> wraps.  The comparison in the loop is
  on the signed readings.  \<open>db\<close> lists the rows \<open>save_game_result\<close> was called with (it
  catches its own exceptions), \<open>presenters\<close> counts the \<open>show_sequence\<close> threads started and
  not yet finished, \<open>leds\<close> lists the calls made on the \<open>LEDController\<close> in the order they
  were started, and \<open>web_queue\<close> is the \<open>mp.Queue(maxsize=100)\<close> of snapshots.
\<close>

datatype led_call = Flash int | Celebration_sequence | Game_over_sequence | Cleanup

record snapshot =
  snap_state :: phase
  snap_level :: int
  snap_score :: int
  snap_high_score :: int

record button_data =
  button :: int
  timestamp :: string

record controller =
  game_logic :: GameLogic
  score :: "32 word"
  high_score :: "32 word"
  game_active :: bool
  db :: "(int \<times> int) list"
  presenters :: nat
  leds :: "led_call list"
  web_queue :: "snapshot list"

text \<open>
  \<open>Queue.put(x, block=False)\<close> on a queue built with \<open>maxsize\<close>: it raises \<open>Full\<close> at once
  when \<open>maxsize\<close> items are waiting, and appends otherwise.  A queue built with
  \<open>maxsize = 0\<close> has no bound and the put always appends.
\<close>

definition put_nowait :: "nat \<Rightarrow> 'a list \<Rightarrow> 'a \<Rightarrow> 'a list outcome" where
  "put_nowait maxsize q x =
     (if maxsize \<noteq> 0 \<and> maxsize \<le> length q then Raised Full else Returned (q @ [x]))"

definition button_queue_maxsize :: nat where
  "button_queue_maxsize = 50"

definition web_queue_maxsize :: nat where
  "web_queue_maxsize = 100"

text \<open>The state of the worker when \<open>run\<close> enters its loop (main.py creates both counters as 0).\<close>

definition controller_init :: controller where
  "controller_init =
     \<lparr>game_logic = GameLogic_init, score = 0, high_score = 0, game_active = False,
      db = [], presenters = 0, leds = [], web_queue = []\<rparr>"

text \<open>
  The body of the first \<open>try\<close> of the loop once \<open>button_queue.get\<close> has returned an item.
  \<open>new_led\<close> is what \<open>random.randint(0, 2)\<close> gives if this iteration draws.  An exception of
  \<open>check_input\<close> is swallowed by the bare \<open>except\<close>, after the append it made.
\<close>

definition handle_button :: "int \<Rightarrow> int \<Rightarrow> controller \<Rightarrow> controller" where
  "handle_button new_led button_index c =
     (if state (game_logic c) = WAITING then
        c\<lparr>game_logic := start_new_game new_led (game_logic c),
          game_active := True,
          presenters := Suc (presenters c)\<rparr>
      else if state (game_logic c) = PLAYING then
        (let c1 = c\<lparr>leds := leds c @ [Flash button_index]\<rparr>
         in case check_input button_index (game_logic c1) of
              (Raised e, g) \<Rightarrow> c1\<lparr>game_logic := g\<rparr>
            | (Returned WIN_LEVEL, g) \<Rightarrow>
                c1\<lparr>game_logic := next_level new_led g,
                   score := score c1 + 10,
                   leds := leds c1 @ [Celebration_sequence],
                   presenters := Suc (presenters c1)\<rparr>
            | (Returned GAME_OVER, g) \<Rightarrow>
                c1\<lparr>high_score :=
                     (if sint (high_score c1) < sint (score c1) then score c1 else high_score c1),
                   db := db c1 @ [(sint (score c1), level g)],
                   leds := leds c1 @ [Game_over_sequence],
                   score := 0,
                   game_logic := reset g,
                   game_active := False\<rparr>
            | (Returned CORRECT, g) \<Rightarrow> c1\<lparr>game_logic := g\<rparr>)
      else c)"

text \<open>The second \<open>try\<close>: the snapshot is put without blocking and \<open>Full\<close> is swallowed.\<close>

definition publish :: "controller \<Rightarrow> controller" where
  "publish c =
     (case put_nowait web_queue_maxsize (web_queue c)
             \<lparr>snap_state = state (game_logic c), snap_level = level (game_logic c),
              snap_score = sint (score c), snap_high_score = sint (high_score c)\<rparr> of
        Raised e \<Rightarrow> c
      | Returned q \<Rightarrow> c\<lparr>web_queue := q\<rparr>)"

text \<open>
  One iteration of the loop.  \<open>got\<close> is the result of \<open>button_queue.get(timeout=0.1)\<close>:
  \<open>None\<close> when it raised \<open>Empty\<close>, which the bare \<open>except\<close> swallows.
\<close>

definition run_iteration :: "int \<Rightarrow> button_data option \<Rightarrow> controller \<Rightarrow> controller" where
  "run_iteration new_led got c =
     publish (case got of None \<Rightarrow> c | Some button_data \<Rightarrow> handle_button new_led (button button_data) c)"

text \<open>
  \<open>show_sequence\<close>, run to its end in its own thread: one flash per entry of the sequence,
  then \<open>state = 'PLAYING'\<close>, whatever the state was.
\<close>

definition show_sequence :: "controller \<Rightarrow> controller" where
  "show_sequence c =
     c\<lparr>leds := leds c @ map Flash (sequence (game_logic c)),
       game_logic := (game_logic c)\<lparr>state := PLAYING\<rparr>,
       presenters := presenters c - 1\<rparr>"


text \<open>
  What the loop meets at one iteration: the value \<open>stop_event.is_set()\<close> returns at the
  loop test, the result of the queue read, and the random draw.
\<close>

record loop_env =
  stop_is_set :: bool
  queue_get :: "button_data option"
  randint :: int

text \<open>
  \<open>run\<close>: \<open>while not self.stop_event.is_set()\<close>, with \<open>led_controller.cleanup()\<close> in the
  \<open>finally\<close>.  The list is the part of the environment observed so far; \<open>None\<close> says the
  loop is still running at its end.
\<close>

definition cleanup :: "controller \<Rightarrow> controller" where
  "cleanup c = c\<lparr>leds := leds c @ [Cleanup]\<rparr>"

fun run :: "loop_env list \<Rightarrow> controller \<Rightarrow> controller option" where
  "run [] c = None"
| "run (e # es) c =
     (if stop_is_set e then Some (cleanup c)
      else run es (run_iteration (randint e) (queue_get e) c))"

text \<open>
  What can happen in the game worker between two loop tests: an iteration of \<open>run\<close> (with
  its draw and the result of its queue read), the end of a \<open>show_sequence\<close> thread, or the
  web worker taking a snapshot off \<open>web_queue\<close>.  A presenter thread sleeps for a second
  before it does anything and the iteration that starts it ends within a fraction of
  that, so its last assignment falls between iterations.  \<open>None\<close> says the event cannot
  happen in that state.
\<close>

datatype worker_event = Iteration int "button_data option" | Presenter_done | Snapshot_taken

fun worker_step :: "worker_event \<Rightarrow> controller \<Rightarrow> controller option" where
  "worker_step (Iteration new_led got) c =
     (if new_led \<in> {0, 1, 2} then Some (run_iteration new_led got c) else None)"
| "worker_step Presenter_done c =
     (if 0 < presenters c then Some (show_sequence c) else None)"
| "worker_step Snapshot_taken c =
     (if web_queue c \<noteq> [] then Some (c\<lparr>web_queue := tl (web_queue c)\<rparr>) else None)"

fun worker_steps :: "worker_event list \<Rightarrow> controller \<Rightarrow> controller option" where
  "worker_steps [] c = Some c"
| "worker_steps (ev # evs) c =
     (case worker_step ev c of None \<Rightarrow> None | Some c' \<Rightarrow> worker_steps evs c')"

section \<open>\<open>ButtonMonitor\<close> and \<open>InputHandlerProcess\<close> (processes/input_handler.py)\<close>

text \<open>
  Clock readings (\<open>time.time()\<close>) and the debounce delay are real numbers here; the
  rounding of the floating-point subtraction is left out.  \<open>debounce_delay\<close> is a field of
  the object, and the results below hold for every value of it.
\<close>

record ButtonMonitor =
  BUTTON_PINS :: "int \<rightharpoonup> nat"
  last_press_times :: "int \<rightharpoonup> real"
  debounce_delay :: real
  button_presses :: "int list"

definition ButtonMonitor_init :: ButtonMonitor where
  "ButtonMonitor_init =
     \<lparr>BUTTON_PINS = [0 \<mapsto> 17, 1 \<mapsto> 27, 2 \<mapsto> 5],
      last_press_times = [0 \<mapsto> 0, 1 \<mapsto> 0, 2 \<mapsto> 0],
      debounce_delay = 2 / 10,
      button_presses = []\<rparr>"

text \<open>
  What one pass of a monitoring loop meets: the level \<open>GPIO.input(pin)\<close> returns, the clock,
  and the value of the stop event at that moment (which the loop has no reference to).
\<close>

record poll =
  stop_event_set :: bool
  gpio_input :: bool
  time_now :: real

text \<open>
  One pass with GPIO available, on the loop's local \<open>last_state\<close> and the shared object.
  Button 2 is detected on a change to high, the others on a change to low.  The dictionary
  is read only inside the edge test.
\<close>

definition monitor_poll :: "int \<Rightarrow> poll \<Rightarrow> bool \<times> ButtonMonitor \<Rightarrow> py_error + bool \<times> ButtonMonitor" where
  "monitor_poll button_index p st =
     (case st of (last_state, bm) \<Rightarrow>
        let current_state = gpio_input p;
            current_time = time_now p
        in if (if button_index = 2 then current_state \<and> \<not> last_state
               else \<not> current_state \<and> last_state)
           then (case last_press_times bm button_index of
                   None \<Rightarrow> Inl KeyError
                 | Some t \<Rightarrow>
                     if current_time - t > debounce_delay bm
                     then Inr (current_state,
                               bm\<lparr>button_presses := button_presses bm @ [button_index],
                                  last_press_times := (last_press_times bm)(button_index \<mapsto> current_time)\<rparr>)
                     else Inr (current_state, bm))
           else Inr (current_state, bm))"

text \<open>
  The \<open>while True\<close> loop over the passes observed so far.  Without GPIO
  (\<open>raspberry_pi = False\<close>) every pass sleeps and continues.  \<open>Inl\<close> is the exception that
  ended the thread, \<open>Inr\<close> the state after these passes, with the loop still running.
\<close>

fun monitor_polls :: "bool \<Rightarrow> int \<Rightarrow> poll list \<Rightarrow> bool \<times> ButtonMonitor \<Rightarrow> py_error + bool \<times> ButtonMonitor" where
  "monitor_polls raspberry_pi button_index [] st = Inr st"
| "monitor_polls raspberry_pi button_index (p # ps) st =
     (if \<not> raspberry_pi then monitor_polls raspberry_pi button_index ps st
      else case monitor_poll button_index p st of
             Inl e \<Rightarrow> Inl e
           | Inr st' \<Rightarrow> monitor_polls raspberry_pi button_index ps st')"

definition monitor_button :: "bool \<Rightarrow> int \<Rightarrow> poll list \<Rightarrow> ButtonMonitor \<Rightarrow> py_error + ButtonMonitor" where
  "monitor_button raspberry_pi button_index ps bm =
     (case BUTTON_PINS bm button_index of
        None \<Rightarrow> Inl KeyError
      | Some pin \<Rightarrow>
          (case monitor_polls raspberry_pi button_index ps
                  (if button_index = 2 then False else True, bm) of
             Inl e \<Rightarrow> Inl e
           | Inr st \<Rightarrow> Inr (snd st)))"

definition get_button_press :: "ButtonMonitor \<Rightarrow> int option \<times> ButtonMonitor" where
  "get_button_press bm =
     (case button_presses bm of
        [] \<Rightarrow> (None, bm)
      | b # bs \<Rightarrow> (Some b, bm\<lparr>button_presses := bs\<rparr>))"

text \<open>
  One iteration of \<open>InputHandlerProcess.run\<close> on the monitor and the button queue; \<open>now\<close> is
  \<open>datetime.now().isoformat()\<close>.  The bare \<open>except\<close> swallows \<open>Full\<close>.
\<close>

definition input_iteration :: "string \<Rightarrow> ButtonMonitor \<times> button_data list \<Rightarrow> ButtonMonitor \<times> button_data list" where
  "input_iteration now st =
     (case st of (bm, button_queue) \<Rightarrow>
        (case get_button_press bm of
           (None, bm') \<Rightarrow> (bm', button_queue)
         | (Some b, bm') \<Rightarrow>
             (case put_nowait button_queue_maxsize button_queue \<lparr>button = b, timestamp = now\<rparr> of
                Raised e \<Rightarrow> (bm', button_queue)
              | Returned q \<Rightarrow> (bm', q))))"

text \<open>
  The two properties of a sampled trace that the debounce results are stated with:
  the times of the samples that are a transition into the active level (from \<open>prev\<close>, the
  level before the first sample), and the times in a list that lie more than \<open>d\<close> after the
  last time kept (\<open>lt\<close> before the first).
\<close>

fun active_edges :: "bool \<Rightarrow> bool \<Rightarrow> poll list \<Rightarrow> real list" where
  "active_edges active_level prev [] = []"
| "active_edges active_level prev (p # ps) =
     (if gpio_input p = active_level \<and> prev \<noteq> active_level then [time_now p] else [])
       @ active_edges active_level (gpio_input p) ps"

fun debounced :: "real \<Rightarrow> real \<Rightarrow> real list \<Rightarrow> real list" where
  "debounced d lt [] = []"
| "debounced d lt (t # ts) =
     (if t - lt > d then t # debounced d t ts else debounced d lt ts)"

section \<open>The button routes of the web worker (processes/web_server.py)\<close>

record response =
  status_code :: nat
  success :: bool
  echoed_button :: "int option"

definition press_button :: "string \<Rightarrow> int \<Rightarrow> button_data list \<Rightarrow> response \<times> button_data list" where
  "press_button now button_index button_queue =
     (if button_index \<notin> {0, 1, 2}
      then (\<lparr>status_code = 400, success = False, echoed_button = None\<rparr>, button_queue)
      else case put_nowait button_queue_maxsize button_queue
                  \<lparr>button = button_index, timestamp = now\<rparr> of
             Returned q \<Rightarrow>
               (\<lparr>status_code = 200, success = True, echoed_button = Some button_index\<rparr>, q)
           | Raised e \<Rightarrow>
               (\<lparr>status_code = 500, success = False, echoed_button = None\<rparr>, button_queue))"

definition start_game :: "string \<Rightarrow> button_data list \<Rightarrow> response \<times> button_data list" where
  "start_game now button_queue =
     (case put_nowait button_queue_maxsize button_queue \<lparr>button = 0, timestamp = now\<rparr> of
        Returned q \<Rightarrow> (\<lparr>status_code = 200, success = True, echoed_button = None\<rparr>, q)
      | Raised e \<Rightarrow> (\<lparr>status_code = 500, success = False, echoed_button = None\<rparr>, button_queue))"

section \<open>\<open>SimonGameSystem.monitor_processes\<close> (main.py)\<close>




section \<open>The input worker as a process: its loop and its three daemon threads\<close>

text \<open>
  \<open>InputHandlerProcess.run\<close> starts one \<open>monitor_button\<close> thread per button with
  \<open>daemon=True\<close> and then loops on the stop event.  The state of the process is the shared
  \<open>ButtonMonitor\<close>, the local \<open>last_state\<close> of each thread that is running, and the button
  queue.
\<close>

record input_worker =
  iw_monitor :: ButtonMonitor
  iw_last_state :: "int \<rightharpoonup> bool"
  iw_queue :: "button_data list"

text \<open>
  What happens in the process, one after the other: the loop of \<open>run\<close> makes its test
  (with the value \<open>stop_event.is_set()\<close> returns) and, if the event is not set, its body
  (with \<open>datetime.now().isoformat()\<close>); a monitoring thread makes one pass; or the game
  worker takes an item off the button queue.
\<close>

datatype input_tick = Loop_pass bool string | Monitor_pass int poll | Queue_read


text \<open>
  One pass of the thread of \<open>button_index\<close>, if it is running: without GPIO it sleeps and
  continues; an exception ends the thread.
\<close>

definition monitor_pass :: "bool \<Rightarrow> int \<Rightarrow> poll \<Rightarrow> input_worker \<Rightarrow> input_worker" where
  "monitor_pass raspberry_pi button_index p w =
     (case iw_last_state w button_index of
        None \<Rightarrow> w
      | Some last_state \<Rightarrow>
          if \<not> raspberry_pi then w
          else case monitor_poll button_index p (last_state, iw_monitor w) of
                 Inl e \<Rightarrow> w\<lparr>iw_last_state := (iw_last_state w)(button_index := None)\<rparr>
               | Inr st \<Rightarrow>
                   w\<lparr>iw_monitor := snd st,
                     iw_last_state := (iw_last_state w)(button_index \<mapsto> fst st)\<rparr>)"

fun input_tick_effect :: "bool \<Rightarrow> input_tick \<Rightarrow> input_worker \<Rightarrow> input_worker" where
  "input_tick_effect raspberry_pi (Loop_pass stop now) w =
     w\<lparr>iw_monitor := fst (input_iteration now (iw_monitor w, iw_queue w)),
       iw_queue := snd (input_iteration now (iw_monitor w, iw_queue w))\<rparr>"
| "input_tick_effect raspberry_pi (Monitor_pass button_index p) w =
     monitor_pass raspberry_pi button_index p w"
| "input_tick_effect raspberry_pi Queue_read w = w\<lparr>iw_queue := tl (iw_queue w)\<rparr>"




section \<open>The invariant of the game worker, and states used as examples\<close>

text \<open>
  What holds of every state of the worker between two loop tests: the level counts the
  sequence, the input is a prefix of it, \<open>WIN\<close> and \<open>LOSE\<close> are left within the iteration
  that sets them, a playback thread is pending exactly in state \<open>SHOWING\<close>, and in state
  \<open>PLAYING\<close> the input is shorter than the sequence.
\<close>

definition worker_inv :: "controller \<Rightarrow> bool" where
  "worker_inv c \<longleftrightarrow>
     level (game_logic c) = int (length (sequence (game_logic c)))
     \<and> prefix (player_input (game_logic c)) (sequence (game_logic c))
     \<and> state (game_logic c) \<noteq> WIN \<and> state (game_logic c) \<noteq> LOSE
     \<and> (state (game_logic c) = SHOWING \<longrightarrow>
          presenters c = 1 \<and> player_input (game_logic c) = [] \<and> sequence (game_logic c) \<noteq> [])
     \<and> (state (game_logic c) \<noteq> SHOWING \<longrightarrow> presenters c = 0)
     \<and> (state (game_logic c) = PLAYING \<longrightarrow>
          length (player_input (game_logic c)) < length (sequence (game_logic c)))"

text \<open>
  A state in playback; the state of the spec's scenario before the wrong press (sequence
  \<open>[1, 2]\<close>, input \<open>[1]\<close>, score 10); and the state after the first press and its playback.
\<close>

definition showing_example :: controller where
  "showing_example =
     \<lparr>game_logic = \<lparr>sequence = [1], player_input = [], level = 1, state = SHOWING\<rparr>,
      score = 0, high_score = 0, game_active = True, db = [], presenters = 1, leds = [],
      web_queue = []\<rparr>"

definition losing_example :: controller where
  "losing_example =
     \<lparr>game_logic = \<lparr>sequence = [1, 2], player_input = [1], level = 2, state = PLAYING\<rparr>,
      score = 10, high_score = 0, game_active = True, db = [], presenters = 0, leds = [],
      web_queue = []\<rparr>"

definition playing_example :: controller where
  "playing_example = show_sequence
      (run_iteration 1 (Some \<lparr>button = 0, timestamp = ''t''\<rparr>) controller_init)"

text \<open>
  Traces of button 2 and of button 0: a bounce 0.1 s after the first edge, two presses
  0.5 s apart, and two passes 10 ms apart taken with the stop event set.
\<close>

definition bounce_trace :: "poll list" where
  "bounce_trace =
     [\<lparr>stop_event_set = False, gpio_input = True, time_now = 1000\<rparr>,
      \<lparr>stop_event_set = False, gpio_input = False, time_now = 20001 / 20\<rparr>,
      \<lparr>stop_event_set = False, gpio_input = True, time_now = 10001 / 10\<rparr>]"

definition two_press_trace :: "poll list" where
  "two_press_trace =
     [\<lparr>stop_event_set = False, gpio_input = False, time_now = 1000\<rparr>,
      \<lparr>stop_event_set = False, gpio_input = True, time_now = 10001 / 10\<rparr>,
      \<lparr>stop_event_set = False, gpio_input = False, time_now = 2001 / 2\<rparr>]"










section \<open>Results on \<open>GameLogic\<close>\<close>

lemma check_input_cases:
  assumes "length (player_input g) < length (sequence g)"
  shows "check_input b g =
     (if b \<noteq> sequence g ! length (player_input g)
        then (Returned GAME_OVER, g\<lparr>player_input := player_input g @ [b], state := LOSE\<rparr>)
      else if Suc (length (player_input g)) = length (sequence g)
        then (Returned WIN_LEVEL, g\<lparr>player_input := [], state := WIN\<rparr>)
      else (Returned CORRECT, g\<lparr>player_input := player_input g @ [b]\<rparr>))"
  using assms by (simp add: check_input_def Let_def nth_append)

text \<open>
  C1.  In phase \<open>PLAYING\<close> with the input so far a proper prefix of the sequence,
  \<open>check_input\<close> appends the button and then: on a mismatch with the sequence entry at that
  position it returns \<open>GAME_OVER\<close> with state \<open>LOSE\<close>; on a match that completes the
  sequence it empties the input, sets state \<open>WIN\<close> and returns \<open>WIN_LEVEL\<close>; on a match
  that leaves the input shorter it returns \<open>CORRECT\<close> and the state stays \<open>PLAYING\<close>.
\<close>

theorem check_input_on_proper_prefix:
  assumes "state g = PLAYING"
    and "strict_prefix (player_input g) (sequence g)"
  shows "(b \<noteq> sequence g ! length (player_input g) \<longrightarrow>
            check_input b g =
              (Returned GAME_OVER, g\<lparr>player_input := player_input g @ [b], state := LOSE\<rparr>))
       \<and> (b = sequence g ! length (player_input g)
            \<and> Suc (length (player_input g)) = length (sequence g) \<longrightarrow>
            check_input b g = (Returned WIN_LEVEL, g\<lparr>player_input := [], state := WIN\<rparr>))
       \<and> (b = sequence g ! length (player_input g)
            \<and> Suc (length (player_input g)) < length (sequence g) \<longrightarrow>
            check_input b g = (Returned CORRECT, g\<lparr>player_input := player_input g @ [b]\<rparr>)
            \<and> state (snd (check_input b g)) = PLAYING
            \<and> strict_prefix (player_input (snd (check_input b g))) (sequence g))"
proof -
  from assms(2) obtain x xs where s: "sequence g = player_input g @ x # xs"
    by (auto simp: strict_prefix_def prefix_def neq_Nil_conv)
  then have len: "length (player_input g) < length (sequence g)" by simp
  have x: "sequence g ! length (player_input g) = x" using s by (metis nth_append_length)
  show ?thesis
    using assms(1) s x by (auto simp: check_input_cases [OF len] strict_prefix_def prefix_def)
qed

theorem check_input_on_proper_prefix_witness:
  "check_input 0 \<lparr>sequence = [1, 2], player_input = [1], level = 2, state = PLAYING\<rparr>
     = (Returned GAME_OVER, \<lparr>sequence = [1, 2], player_input = [1, 0], level = 2, state = LOSE\<rparr>)
   \<and> check_input 2 \<lparr>sequence = [1, 2], player_input = [1], level = 2, state = PLAYING\<rparr>
     = (Returned WIN_LEVEL, \<lparr>sequence = [1, 2], player_input = [], level = 2, state = WIN\<rparr>)
   \<and> check_input 1 \<lparr>sequence = [1, 2], player_input = [], level = 2, state = PLAYING\<rparr>
     = (Returned CORRECT, \<lparr>sequence = [1, 2], player_input = [1], level = 2, state = PLAYING\<rparr>)"
  using check_input_on_proper_prefix [of "\<lparr>sequence = [1, 2], player_input = [1], level = 2, state = PLAYING\<rparr>" 0]
    check_input_on_proper_prefix [of "\<lparr>sequence = [1, 2], player_input = [1], level = 2, state = PLAYING\<rparr>" 2]
    check_input_on_proper_prefix [of "\<lparr>sequence = [1, 2], player_input = [], level = 2, state = PLAYING\<rparr>" 1]
  by (simp add: strict_prefix_def)

text \<open>
  C7.  \<open>next_level\<close> keeps the entries of the previous sequence in place and appends exactly
  one entry, the draw from \<open>{0, 1, 2}\<close>; it empties the input and sets state \<open>SHOWING\<close>.
\<close>

theorem next_level_appends_one:
  assumes "new_led \<in> {0, 1, 2}"
  shows "sequence (next_level new_led g) = sequence g @ [new_led]
       \<and> length (sequence (next_level new_led g)) = Suc (length (sequence g))
       \<and> take (length (sequence g)) (sequence (next_level new_led g)) = sequence g
       \<and> last (sequence (next_level new_led g)) \<in> {0, 1, 2}
       \<and> player_input (next_level new_led g) = []
       \<and> state (next_level new_led g) = SHOWING"
  using assms by (simp add: next_level_def add_to_sequence_def)

theorem next_level_appends_one_witness:
  "(2::int) \<in> {0, 1, 2}
   \<and> next_level 2 \<lparr>sequence = [1, 0], player_input = [], level = 2, state = WIN\<rparr>
       = \<lparr>sequence = [1, 0, 2], player_input = [], level = 3, state = SHOWING\<rparr>"
  using next_level_appends_one [of 2 "\<lparr>sequence = [1, 0], player_input = [], level = 2, state = WIN\<rparr>"]
  by (simp add: next_level_def add_to_sequence_def)

text \<open>
  C8.  \<open>level\<close> equals the length of \<open>sequence\<close> in the initial object, after
  \<open>start_new_game\<close> and \<open>reset\<close> from any object, and after \<open>check_input\<close> and
  \<open>next_level\<close> whenever it held before.
\<close>

theorem level_counts_sequence_invariant:
  "level_counts_sequence GameLogic_init
   \<and> level_counts_sequence (start_new_game new_led g)
   \<and> level_counts_sequence (reset g)
   \<and> (level_counts_sequence g \<longrightarrow>
        level_counts_sequence (snd (check_input b g))
        \<and> level_counts_sequence (next_level new_led g))"
  by (simp add: level_counts_sequence_def GameLogic_init_def start_new_game_def reset_def
      next_level_def add_to_sequence_def check_input_def Let_def)

theorem level_counts_sequence_invariant_witness:
  "level_counts_sequence \<lparr>sequence = [1], player_input = [], level = 1, state = PLAYING\<rparr>
   \<and> level_counts_sequence (snd (check_input 1 \<lparr>sequence = [1], player_input = [], level = 1, state = PLAYING\<rparr>))
   \<and> level_counts_sequence (next_level 0 \<lparr>sequence = [1], player_input = [], level = 1, state = PLAYING\<rparr>)"
  using level_counts_sequence_invariant [of 0 "\<lparr>sequence = [1], player_input = [], level = 1, state = PLAYING\<rparr>" 1]
  by (simp add: level_counts_sequence_def)

section \<open>Results on the driving loop\<close>

lemma publish_fields [simp]:
  "game_logic (publish c) = game_logic c" "score (publish c) = score c"
  "high_score (publish c) = high_score c" "game_active (publish c) = game_active c"
  "db (publish c) = db c" "presenters (publish c) = presenters c" "leds (publish c) = leds c"
  by (simp_all add: publish_def put_nowait_def)

lemma handle_button_ignored:
  "state (game_logic c) \<noteq> WAITING \<Longrightarrow> state (game_logic c) \<noteq> PLAYING \<Longrightarrow> handle_button r b c = c"
  by (simp add: handle_button_def)

text \<open>
  C2.  A button press taken off the queue while the state is neither \<open>WAITING\<close> nor
  \<open>PLAYING\<close> (so \<open>SHOWING\<close>, \<open>WIN\<close> or \<open>LOSE\<close>) is ignored: \<open>check_input\<close> is not
  reached, and the sequence, the player's input, the level and the state are what they
  were, as are both counters, the round flag, the stored results and the LEDs.
\<close>

theorem press_ignored_outside_waiting_and_playing:
  assumes "state (game_logic c) \<noteq> WAITING" and "state (game_logic c) \<noteq> PLAYING"
  shows "handle_button new_led (button bd) c = c
       \<and> game_logic (run_iteration new_led (Some bd) c) = game_logic c
       \<and> score (run_iteration new_led (Some bd) c) = score c
       \<and> high_score (run_iteration new_led (Some bd) c) = high_score c
       \<and> game_active (run_iteration new_led (Some bd) c) = game_active c
       \<and> db (run_iteration new_led (Some bd) c) = db c
       \<and> presenters (run_iteration new_led (Some bd) c) = presenters c
       \<and> leds (run_iteration new_led (Some bd) c) = leds c"
  using assms by (simp add: run_iteration_def handle_button_ignored)

theorem press_ignored_outside_waiting_and_playing_witness:
  "state (game_logic showing_example) \<noteq> WAITING \<and> state (game_logic showing_example) \<noteq> PLAYING
   \<and> game_logic (run_iteration 2 (Some \<lparr>button = 1, timestamp = ''t''\<rparr>) showing_example)
       = \<lparr>sequence = [1], player_input = [], level = 1, state = SHOWING\<rparr>"
  using press_ignored_outside_waiting_and_playing
          [of showing_example 2 "\<lparr>button = 1, timestamp = ''t''\<rparr>"]
  by (simp add: showing_example_def)

lemma handle_button_game_over:
  assumes "state (game_logic c) = PLAYING"
    and "fst (check_input b (game_logic c)) = Returned GAME_OVER"
  shows "handle_button r b c =
     c\<lparr>leds := leds c @ [Flash b, Game_over_sequence],
       high_score := (if sint (high_score c) < sint (score c) then score c else high_score c),
       db := db c @ [(sint (score c), level (game_logic c))],
       score := 0,
       game_logic := GameLogic_init,
       game_active := False\<rparr>"
proof -
  obtain g where g: "check_input b (game_logic c) = (Returned GAME_OVER, g)"
    using assms(2) by (cases "check_input b (game_logic c)") simp
  have "level g = level (game_logic c)"
    using g by (auto simp: check_input_def Let_def split: if_splits)
  then show ?thesis
    using assms(1) g by (simp add: handle_button_def reset_def GameLogic_init_def)
qed

text \<open>
  C5.  In an iteration where \<open>check_input\<close> returns \<open>GAME_OVER\<close>: \<open>high_score\<close> becomes
  \<open>score\<close> exactly when \<open>score\<close> is strictly greater and is unchanged otherwise; the row
  saved is the score before the reset with the level reached; then \<open>score\<close> is 0, the game
  object is back to \<open>WAITING\<close> with empty sequence and input and level 0, and the round
  flag is cleared.
\<close>

theorem game_over_step:
  assumes "state (game_logic c) = PLAYING"
    and "fst (check_input (button bd) (game_logic c)) = Returned GAME_OVER"
  shows "high_score (run_iteration new_led (Some bd) c)
           = (if sint (high_score c) < sint (score c) then score c else high_score c)
       \<and> db (run_iteration new_led (Some bd) c) = db c @ [(sint (score c), level (game_logic c))]
       \<and> score (run_iteration new_led (Some bd) c) = 0
       \<and> game_logic (run_iteration new_led (Some bd) c)
           = \<lparr>sequence = [], player_input = [], level = 0, state = WAITING\<rparr>
       \<and> game_active (run_iteration new_led (Some bd) c) = False"
  by (simp add: run_iteration_def handle_button_game_over [OF assms] GameLogic_init_def)

theorem game_over_step_witness:
  "state (game_logic losing_example) = PLAYING
   \<and> fst (check_input 0 (game_logic losing_example)) = Returned GAME_OVER
   \<and> high_score (run_iteration 1 (Some \<lparr>button = 0, timestamp = ''t''\<rparr>) losing_example) = 10
   \<and> db (run_iteration 1 (Some \<lparr>button = 0, timestamp = ''t''\<rparr>) losing_example) = [(10, 2)]
   \<and> score (run_iteration 1 (Some \<lparr>button = 0, timestamp = ''t''\<rparr>) losing_example) = 0"
  using game_over_step [of losing_example "\<lparr>button = 0, timestamp = ''t''\<rparr>" 1]
  by (simp add: losing_example_def check_input_def)

lemma handle_button_high_score:
  "high_score (handle_button r b c) = high_score c
   \<or> (state (game_logic c) = PLAYING
       \<and> fst (check_input b (game_logic c)) = Returned GAME_OVER
       \<and> sint (high_score c) < sint (score c)
       \<and> high_score (handle_button r b c) = score c)"
  by (auto simp: handle_button_def Let_def split: prod.splits outcome.splits verdict.splits)

lemma run_iteration_high_score:
  "high_score (run_iteration r got c) = high_score c
   \<or> (\<exists>bd. got = Some bd \<and> state (game_logic c) = PLAYING
       \<and> fst (check_input (button bd) (game_logic c)) = Returned GAME_OVER
       \<and> sint (high_score c) < sint (score c)
       \<and> high_score (run_iteration r got c) = score c)"
proof (cases got)
  case None
  then show ?thesis by (simp add: run_iteration_def)
next
  case (Some bd)
  then show ?thesis
    using handle_button_high_score [of r "button bd" c] by (auto simp: run_iteration_def)
qed

lemma worker_step_high_score:
  assumes "worker_step ev c = Some c'"
  shows "high_score c' = high_score c
   \<or> (\<exists>r bd. ev = Iteration r (Some bd) \<and> state (game_logic c) = PLAYING
       \<and> fst (check_input (button bd) (game_logic c)) = Returned GAME_OVER
       \<and> sint (high_score c) < sint (score c)
       \<and> high_score c' = score c)"
proof (cases ev)
  case (Iteration new_led got)
  with assms have "c' = run_iteration new_led got c" by (simp split: if_splits)
  then show ?thesis
    using Iteration run_iteration_high_score [of new_led got c] by auto
next
  case Presenter_done
  with assms show ?thesis by (auto simp: show_sequence_def split: if_splits)
next
  case Snapshot_taken
  with assms show ?thesis by (auto split: if_splits)
qed

lemma worker_step_high_score_le:
  "worker_step ev c = Some c' \<Longrightarrow> sint (high_score c) \<le> sint (high_score c')"
  using worker_step_high_score [of ev c c'] by auto

lemma worker_steps_high_score_le:
  "worker_steps evs c = Some c' \<Longrightarrow> sint (high_score c) \<le> sint (high_score c')"
proof (induction evs arbitrary: c)
  case Nil
  then show ?case by simp
next
  case (Cons ev evs)
  then obtain c1 where s: "worker_step ev c = Some c1" and r: "worker_steps evs c1 = Some c'"
    by (auto split: option.splits)
  from worker_step_high_score_le [OF s] Cons.IH [OF r] show ?case by simp
qed

lemma run_high_score_le:
  "run es c = Some c' \<Longrightarrow> sint (high_score c) \<le> sint (high_score c')"
proof (induction es arbitrary: c)
  case Nil
  then show ?case by simp
next
  case (Cons e es)
  show ?case
  proof (cases "stop_is_set e")
    case True
    with Cons.prems show ?thesis by (auto simp: cleanup_def)
  next
    case False
    with Cons.prems have "run es (run_iteration (randint e) (queue_get e) c) = Some c'" by simp
    from Cons.IH [OF this] run_iteration_high_score [of "randint e" "queue_get e" c]
    show ?thesis by auto
  qed
qed

text \<open>
  C6.  \<open>high_score\<close> never decreases: not along any sequence of steps of the game worker
  (loop iterations of any kind, the end of a playback, a snapshot being taken), and not
  from the entry of \<open>run\<close> to its exit.  A step that changes it is an iteration in which
  \<open>check_input\<close> returned \<open>GAME_OVER\<close> with \<open>score\<close> above it, and it becomes \<open>score\<close>.
\<close>

theorem high_score_never_decreases:
  "(worker_steps evs c = Some c' \<longrightarrow> sint (high_score c) \<le> sint (high_score c'))
   \<and> (run es c = Some c' \<longrightarrow> sint (high_score c) \<le> sint (high_score c'))
   \<and> (worker_step ev c = Some c' \<and> high_score c' \<noteq> high_score c \<longrightarrow>
        (\<exists>new_led bd. ev = Iteration new_led (Some bd)
           \<and> state (game_logic c) = PLAYING
           \<and> fst (check_input (button bd) (game_logic c)) = Returned GAME_OVER
           \<and> sint (high_score c) < sint (score c)
           \<and> high_score c' = score c))"
  using worker_steps_high_score_le [of evs c c'] run_high_score_le [of es c c']
    worker_step_high_score [of ev c c'] by blast

theorem high_score_never_decreases_witness:
  "worker_steps [Iteration 1 (Some \<lparr>button = 0, timestamp = ''t''\<rparr>)] losing_example
       = Some (run_iteration 1 (Some \<lparr>button = 0, timestamp = ''t''\<rparr>) losing_example)
   \<and> worker_step (Iteration 1 (Some \<lparr>button = 0, timestamp = ''t''\<rparr>)) losing_example
       = Some (run_iteration 1 (Some \<lparr>button = 0, timestamp = ''t''\<rparr>) losing_example)
   \<and> high_score (run_iteration 1 (Some \<lparr>button = 0, timestamp = ''t''\<rparr>) losing_example)
       \<noteq> high_score losing_example
   \<and> run [\<lparr>stop_is_set = False, queue_get = Some \<lparr>button = 0, timestamp = ''t''\<rparr>, randint = 1\<rparr>,
           \<lparr>stop_is_set = True, queue_get = None, randint = 0\<rparr>] losing_example
       = Some (cleanup (run_iteration 1 (Some \<lparr>button = 0, timestamp = ''t''\<rparr>) losing_example))
   \<and> sint (high_score losing_example) < sint (score losing_example)
   \<and> sint (high_score losing_example)
       \<le> sint (high_score (run_iteration 1 (Some \<lparr>button = 0, timestamp = ''t''\<rparr>) losing_example))
   \<and> sint (high_score losing_example)
       \<le> sint (high_score (cleanup (run_iteration 1 (Some \<lparr>button = 0, timestamp = ''t''\<rparr>) losing_example)))"
proof -
  let ?ev = "Iteration 1 (Some \<lparr>button = 0, timestamp = ''t''\<rparr>)"
  let ?c' = "run_iteration 1 (Some \<lparr>button = 0, timestamp = ''t''\<rparr>) losing_example"
  let ?es = "[\<lparr>stop_is_set = False, queue_get = Some \<lparr>button = 0, timestamp = ''t''\<rparr>, randint = 1\<rparr>,
           \<lparr>stop_is_set = True, queue_get = None, randint = 0\<rparr>]"
  have step: "worker_step ?ev losing_example = Some ?c'" by simp
  have steps: "worker_steps [?ev] losing_example = Some ?c'" by simp
  have changed: "high_score ?c' \<noteq> high_score losing_example"
    by (simp add: run_iteration_def handle_button_def check_input_def losing_example_def)
  have exits: "run ?es losing_example = Some (cleanup ?c')" by simp
  have lt: "sint (high_score losing_example) < sint (score losing_example)"
    by (simp add: losing_example_def)
  note a = high_score_never_decreases [of "[?ev]" losing_example ?c' "[]" ?ev]
  note b = high_score_never_decreases [of "[]" losing_example "cleanup ?c'" ?es ?ev]
  have le1: "sint (high_score losing_example) \<le> sint (high_score ?c')"
    by (rule mp [OF conjunct1 [OF a] steps])
  have le2: "sint (high_score losing_example) \<le> sint (high_score (cleanup ?c'))"
    by (rule mp [OF conjunct1 [OF conjunct2 [OF b]] exits])
  show ?thesis
    by (intro conjI) (rule steps step changed exits lt le1 le2)+
qed

lemma worker_inv_init: "worker_inv controller_init"
  by (simp add: worker_inv_def controller_init_def GameLogic_init_def)

lemma prefix_snoc_nth:
  assumes "prefix p s" and "length p < length s"
  shows "prefix (p @ [s ! length p]) s"
proof -
  from assms obtain x xs where "s = p @ x # xs"
    by (auto simp: prefix_def neq_Nil_conv)
  then show ?thesis by (simp add: nth_append)
qed

lemma worker_inv_handle_button:
  assumes "worker_inv c"
  shows "worker_inv (handle_button r b c)"
proof (cases "state (game_logic c)")
  case WAITING
  with assms show ?thesis
    by (simp add: worker_inv_def handle_button_def start_new_game_def add_to_sequence_def)
next
  case SHOWING
  with assms show ?thesis by (simp add: handle_button_def)
next
  case PLAYING
  with assms have len: "length (player_input (game_logic c)) < length (sequence (game_logic c))"
    and pre: "prefix (player_input (game_logic c)) (sequence (game_logic c))"
    and lev: "level (game_logic c) = int (length (sequence (game_logic c)))"
    and pres: "presenters c = 0"
    by (simp_all add: worker_inv_def)
  show ?thesis
    using PLAYING len lev pres prefix_snoc_nth [OF pre len]
    by (auto simp: handle_button_def check_input_cases worker_inv_def Let_def
        next_level_def add_to_sequence_def reset_def)
next
  case WIN
  with assms show ?thesis by (simp add: worker_inv_def)
next
  case LOSE
  with assms show ?thesis by (simp add: worker_inv_def)
qed

lemma worker_inv_publish: "worker_inv (publish c) = worker_inv c"
  by (simp add: worker_inv_def)

lemma worker_inv_step:
  assumes "worker_step ev c = Some c'" and "worker_inv c"
  shows "worker_inv c'"
proof (cases ev)
  case (Iteration new_led got)
  with assms(1) have "c' = run_iteration new_led got c" by (simp split: if_splits)
  then show ?thesis
    using assms(2)
    by (cases got) (simp_all add: run_iteration_def worker_inv_publish worker_inv_handle_button)
next
  case Presenter_done
  with assms(1) have "0 < presenters c" and "c' = show_sequence c"
    by (simp_all split: if_splits)
  then show ?thesis
    using assms(2) by (cases "state (game_logic c)") (auto simp: worker_inv_def show_sequence_def)
next
  case Snapshot_taken
  with assms(1) have "c' = c\<lparr>web_queue := tl (web_queue c)\<rparr>" by (simp split: if_splits)
  then show ?thesis using assms(2) by (simp add: worker_inv_def)
qed

lemma worker_inv_steps:
  "worker_steps evs c = Some c' \<Longrightarrow> worker_inv c \<Longrightarrow> worker_inv c'"
proof (induction evs arbitrary: c)
  case Nil
  then show ?case by simp
next
  case (Cons ev evs)
  then obtain c1 where s: "worker_step ev c = Some c1" and r: "worker_steps evs c1 = Some c'"
    by (auto split: option.splits)
  from Cons.IH [OF r worker_inv_step [OF s Cons.prems(2)]] show ?case .
qed

lemma reachable_worker_inv: "worker_steps evs controller_init = Some c \<Longrightarrow> worker_inv c"
  by (rule worker_inv_steps [OF _ worker_inv_init])

lemma check_input_raises:
  "length (sequence g) \<le> length (player_input g) \<Longrightarrow>
     check_input b g = (Raised IndexError, g\<lparr>player_input := player_input g @ [b]\<rparr>)"
  by (simp add: check_input_def)

lemma handle_button_not_playing:
  "state (game_logic c) \<noteq> PLAYING \<Longrightarrow>
     game_logic (handle_button r b c) = game_logic c
     \<or> game_logic (handle_button r b c) = start_new_game r (game_logic c)"
  by (simp add: handle_button_def)

text \<open>
  C10.  \<open>check_input\<close> has no bounds guard: with an input at least as long as the sequence
  (an empty sequence included) its read raises \<open>IndexError\<close>, after the append.  With an
  input shorter than the sequence it returns; every state the worker reaches from its
  initial one in state \<open>PLAYING\<close> has such an input; and an iteration of the loop in any other state
  leaves the game object as it was or starts a new game, so it does not call
  \<open>check_input\<close>.
\<close>

theorem check_input_in_bounds_when_playing:
  "(length (player_input g) < length (sequence g) \<longrightarrow>
       (\<exists>v. fst (check_input b g) = Returned v))
   \<and> (worker_steps evs controller_init = Some c \<and> state (game_logic c) = PLAYING \<longrightarrow>
       length (player_input (game_logic c)) < length (sequence (game_logic c))
       \<and> strict_prefix (player_input (game_logic c)) (sequence (game_logic c))
       \<and> (\<exists>v. fst (check_input b (game_logic c)) = Returned v))
   \<and> (length (sequence g) \<le> length (player_input g) \<longrightarrow>
       check_input b g = (Raised IndexError, g\<lparr>player_input := player_input g @ [b]\<rparr>))
   \<and> (state (game_logic c) \<noteq> PLAYING \<longrightarrow>
       game_logic (run_iteration new_led got c) = game_logic c
       \<or> game_logic (run_iteration new_led got c) = start_new_game new_led (game_logic c))"
proof -
  have a: "length (player_input g) < length (sequence g) \<Longrightarrow> \<exists>v. fst (check_input b g) = Returned v" for g
    by (simp add: check_input_cases)
  have b: "worker_steps evs controller_init = Some c \<Longrightarrow> state (game_logic c) = PLAYING \<Longrightarrow>
      length (player_input (game_logic c)) < length (sequence (game_logic c))
      \<and> strict_prefix (player_input (game_logic c)) (sequence (game_logic c))"
    using reachable_worker_inv [of evs c] by (auto simp: worker_inv_def strict_prefix_def)
  have d: "state (game_logic c) \<noteq> PLAYING \<Longrightarrow>
       game_logic (run_iteration new_led got c) = game_logic c
       \<or> game_logic (run_iteration new_led got c) = start_new_game new_led (game_logic c)"
    using handle_button_not_playing [of c new_led] by (cases got) (auto simp: run_iteration_def)
  show ?thesis using a b d check_input_raises [of g b] by blast
qed

lemma playing_example_eq: "game_logic playing_example = \<lparr>sequence = [1], player_input = [], level = 1, state = PLAYING\<rparr>"
  by (simp add: playing_example_def show_sequence_def run_iteration_def handle_button_def controller_init_def GameLogic_init_def start_new_game_def add_to_sequence_def)

theorem check_input_in_bounds_when_playing_witness:
  "worker_steps [Iteration 1 (Some \<lparr>button = 0, timestamp = ''t''\<rparr>), Presenter_done] controller_init
       = Some playing_example
   \<and> state (game_logic playing_example) = PLAYING
   \<and> length (player_input (game_logic playing_example)) < length (sequence (game_logic playing_example))
   \<and> fst (check_input 1 (game_logic playing_example)) = Returned WIN_LEVEL
   \<and> state (game_logic controller_init) \<noteq> PLAYING
   \<and> length (sequence GameLogic_init) \<le> length (player_input GameLogic_init)
   \<and> fst (check_input 1 GameLogic_init) = Raised IndexError
   \<and> game_logic (run_iteration 1 (Some \<lparr>button = 1, timestamp = ''t''\<rparr>) controller_init)
       = start_new_game 1 GameLogic_init"
proof -
  let ?evs = "[Iteration 1 (Some \<lparr>button = 0, timestamp = ''t''\<rparr>), Presenter_done]"
  let ?c1 = "run_iteration 1 (Some \<lparr>button = 0, timestamp = ''t''\<rparr>) controller_init"
  have "0 < presenters ?c1"
    by (simp add: run_iteration_def handle_button_def controller_init_def GameLogic_init_def)
  then have r: "worker_steps ?evs controller_init = Some playing_example"
    by (simp add: playing_example_def)
  show ?thesis
    using r
      check_input_in_bounds_when_playing
        [where g = "game_logic playing_example" and b = 1 and evs = ?evs
           and c = playing_example and new_led = 1 and got = None]
      check_input_in_bounds_when_playing
        [where g = GameLogic_init and b = 1 and evs = "[]" and c = controller_init
           and new_led = 1 and got = "Some \<lparr>button = 1, timestamp = ''t''\<rparr>"]
    by (simp add: playing_example_eq check_input_def)
      (simp add: controller_init_def GameLogic_init_def run_iteration_def handle_button_def)
qed

section \<open>Results on the button queue\<close>

text \<open>
  C9.  With the button queue at its capacity, a non-blocking put raises \<open>Full\<close> at once
  (it does not wait), and every publisher catches it: the input worker's iteration takes
  the press off the monitor and leaves the queue as it was, and the two web routes return
  their failure response (status 500) with the queue as it was.  No exception leaves the
  publisher, the new event is dropped, and the queue still holds exactly its capacity.
\<close>

theorem publish_on_full_queue_is_dropped:
  assumes "length button_queue = button_queue_maxsize"
  shows "put_nowait button_queue_maxsize button_queue bd = Raised Full
       \<and> snd (input_iteration now (bm, button_queue)) = button_queue
       \<and> (button_presses bm = b # bs \<longrightarrow>
            input_iteration now (bm, button_queue) = (bm\<lparr>button_presses := bs\<rparr>, button_queue))
       \<and> snd (press_button now button_index button_queue) = button_queue
       \<and> (button_index \<in> {0, 1, 2} \<longrightarrow>
            press_button now button_index button_queue
              = (\<lparr>status_code = 500, success = False, echoed_button = None\<rparr>, button_queue))
       \<and> start_game now button_queue
              = (\<lparr>status_code = 500, success = False, echoed_button = None\<rparr>, button_queue)
       \<and> length (snd (input_iteration now (bm, button_queue))) = button_queue_maxsize
       \<and> length (snd (press_button now button_index button_queue)) = button_queue_maxsize
       \<and> length (snd (start_game now button_queue)) = button_queue_maxsize"
  using assms
  by (auto simp: put_nowait_def button_queue_maxsize_def input_iteration_def
      get_button_press_def press_button_def start_game_def split: list.splits)

theorem publish_on_full_queue_is_dropped_witness:
  "length (replicate 50 \<lparr>button = 1, timestamp = ''t''\<rparr>) = button_queue_maxsize
   \<and> input_iteration ''u'' (ButtonMonitor_init\<lparr>button_presses := [2]\<rparr>,
         replicate 50 \<lparr>button = 1, timestamp = ''t''\<rparr>)
       = (ButtonMonitor_init\<lparr>button_presses := []\<rparr>, replicate 50 \<lparr>button = 1, timestamp = ''t''\<rparr>)
   \<and> press_button ''u'' 2 (replicate 50 \<lparr>button = 1, timestamp = ''t''\<rparr>)
       = (\<lparr>status_code = 500, success = False, echoed_button = None\<rparr>,
          replicate 50 \<lparr>button = 1, timestamp = ''t''\<rparr>)"
  using publish_on_full_queue_is_dropped
     [of "replicate 50 \<lparr>button = 1, timestamp = ''t''\<rparr>" "\<lparr>button = 2, timestamp = ''u''\<rparr>"
         "''u''" "ButtonMonitor_init\<lparr>button_presses := [2]\<rparr>" 2 "[]" 2]
  by (simp add: button_queue_maxsize_def)

section \<open>Results on the monitoring loops\<close>

lemma monitor_polls_debounce:
  assumes "last_press_times bm i = Some t0"
  shows "\<exists>prev' bm'. monitor_polls True i ps (prev, bm) = Inr (prev', bm')
      \<and> button_presses bm' = button_presses bm
          @ replicate (length (debounced (debounce_delay bm) t0
                                 (active_edges (i = 2) prev ps))) i
      \<and> last_press_times bm' i
          = Some (last (t0 # debounced (debounce_delay bm) t0 (active_edges (i = 2) prev ps)))
      \<and> debounce_delay bm' = debounce_delay bm"
  using assms
proof (induction ps arbitrary: prev bm t0)
  case Nil
  then show ?case by simp
next
  case (Cons p ps)
  let ?edge = "gpio_input p = (i = 2) \<and> prev \<noteq> (i = 2)"
  let ?d = "debounce_delay bm"
  show ?case
  proof (cases "?edge \<and> time_now p - t0 > ?d")
    case True
    let ?bm1 = "bm\<lparr>button_presses := button_presses bm @ [i],
                    last_press_times := (last_press_times bm)(i \<mapsto> time_now p)\<rparr>"
    have step: "monitor_poll i p (prev, bm) = Inr (gpio_input p, ?bm1)"
      using True Cons.prems by (auto simp: monitor_poll_def Let_def)
    have "last_press_times ?bm1 i = Some (time_now p)" by simp
    from Cons.IH [OF this, of "gpio_input p"] obtain prev' bm' where
      r: "monitor_polls True i ps (gpio_input p, ?bm1) = Inr (prev', bm')"
      and bp: "button_presses bm' = button_presses ?bm1
          @ replicate (length (debounced (debounce_delay ?bm1) (time_now p)
                                 (active_edges (i = 2) (gpio_input p) ps))) i"
      and lp: "last_press_times bm' i
          = Some (last (time_now p # debounced (debounce_delay ?bm1) (time_now p)
                           (active_edges (i = 2) (gpio_input p) ps)))"
      and dd: "debounce_delay bm' = debounce_delay ?bm1"
      by blast
    show ?thesis
      using True step r bp lp dd by (simp add: replicate_app_Cons_same)
  next
    case False
    have step: "monitor_poll i p (prev, bm) = Inr (gpio_input p, bm)"
      using False Cons.prems by (auto simp: monitor_poll_def Let_def)
    from Cons.IH [OF Cons.prems, of "gpio_input p"] obtain prev' bm' where
      r: "monitor_polls True i ps (gpio_input p, bm) = Inr (prev', bm')"
      and bp: "button_presses bm' = button_presses bm
          @ replicate (length (debounced ?d t0 (active_edges (i = 2) (gpio_input p) ps))) i"
      and lp: "last_press_times bm' i
          = Some (last (t0 # debounced ?d t0 (active_edges (i = 2) (gpio_input p) ps)))"
      and dd: "debounce_delay bm' = ?d"
      by blast
    show ?thesis
      using False step r bp lp dd by auto
  qed
qed

lemma debounced_two:
  "d < t1 - t0 \<Longrightarrow> debounced d t0 [t1, t2] = (if d < t2 - t1 then [t1, t2] else [t1])"
  by simp

text \<open>
  C4.  With GPIO available, the events one monitoring loop appends over a sampled trace
  are exactly the transitions into the active level (high for button 2, low for the
  others, starting from the inactive level) whose time is more than the debounce delay
  after the last event kept (after \<open>t0\<close>, the stored last press time, for the first).
  When the trace has two such transitions and the first is kept, a second one within the
  delay gives exactly one event and a second one more than the delay later gives exactly
  two.
\<close>

theorem monitor_button_debounce:
  assumes "BUTTON_PINS bm button_index = Some pin"
    and "last_press_times bm button_index = Some t0"
  shows "\<exists>bm'. monitor_button True button_index ps bm = Inr bm'
      \<and> button_presses bm' = button_presses bm
          @ replicate (length (debounced (debounce_delay bm) t0
                 (active_edges (button_index = 2) (button_index \<noteq> 2) ps))) button_index
      \<and> (\<forall>t1 t2. active_edges (button_index = 2) (button_index \<noteq> 2) ps = [t1, t2]
             \<and> debounce_delay bm < t1 - t0 \<longrightarrow>
           (t2 - t1 \<le> debounce_delay bm \<longrightarrow>
              button_presses bm' = button_presses bm @ [button_index])
           \<and> (debounce_delay bm < t2 - t1 \<longrightarrow>
              button_presses bm' = button_presses bm @ [button_index, button_index]))"
proof -
  from monitor_polls_debounce [OF assms(2), of ps "button_index \<noteq> 2"]
  obtain prev' bm' where
    r: "monitor_polls True button_index ps (button_index \<noteq> 2, bm) = Inr (prev', bm')"
    and bp: "button_presses bm' = button_presses bm
          @ replicate (length (debounced (debounce_delay bm) t0
                 (active_edges (button_index = 2) (button_index \<noteq> 2) ps))) button_index"
    by blast
  have "monitor_button True button_index ps bm = Inr bm'"
    using assms(1) r by (cases "button_index = 2") (simp_all add: monitor_button_def)
  moreover have "\<forall>t1 t2. active_edges (button_index = 2) (button_index \<noteq> 2) ps = [t1, t2]
             \<and> debounce_delay bm < t1 - t0 \<longrightarrow>
           (t2 - t1 \<le> debounce_delay bm \<longrightarrow>
              button_presses bm' = button_presses bm @ [button_index])
           \<and> (debounce_delay bm < t2 - t1 \<longrightarrow>
              button_presses bm' = button_presses bm @ [button_index, button_index])"
    using bp by (auto simp: debounced_two)
  ultimately show ?thesis using bp by blast
qed

theorem monitor_button_debounce_witness:
  "BUTTON_PINS ButtonMonitor_init 2 = Some 5
   \<and> last_press_times ButtonMonitor_init 2 = Some 0
   \<and> active_edges True False bounce_trace = [1000, 10001 / 10]
   \<and> button_presses (projr (monitor_button True 2 bounce_trace ButtonMonitor_init)) = [2]
   \<and> BUTTON_PINS ButtonMonitor_init 0 = Some 17
   \<and> last_press_times ButtonMonitor_init 0 = Some 0
   \<and> active_edges False True two_press_trace = [1000, 2001 / 2]
   \<and> button_presses (projr (monitor_button True 0 two_press_trace ButtonMonitor_init)) = [0, 0]"
proof -
  have p2: "BUTTON_PINS ButtonMonitor_init 2 = Some 5"
    and l2: "last_press_times ButtonMonitor_init 2 = Some 0"
    and p0: "BUTTON_PINS ButtonMonitor_init 0 = Some 17"
    and l0: "last_press_times ButtonMonitor_init 0 = Some 0"
    and d: "debounce_delay ButtonMonitor_init = 2 / 10"
    and b: "button_presses ButtonMonitor_init = []"
    by (simp_all add: ButtonMonitor_init_def)
  have e2: "active_edges True False bounce_trace = [1000, 10001 / 10]"
    by (simp add: bounce_trace_def)
  have e0: "active_edges False True two_press_trace = [1000, 2001 / 2]"
    by (simp add: two_press_trace_def)
  from monitor_button_debounce [OF p2 l2, of bounce_trace] obtain bm' where
    r: "monitor_button True 2 bounce_trace ButtonMonitor_init = Inr bm'"
    and two: "\<forall>t1 t2. active_edges ((2::int) = 2) ((2::int) \<noteq> 2) bounce_trace = [t1, t2]
             \<and> debounce_delay ButtonMonitor_init < t1 - 0 \<longrightarrow>
           (t2 - t1 \<le> debounce_delay ButtonMonitor_init \<longrightarrow>
              button_presses bm' = button_presses ButtonMonitor_init @ [2])
           \<and> (debounce_delay ButtonMonitor_init < t2 - t1 \<longrightarrow>
              button_presses bm' = button_presses ButtonMonitor_init @ [2, 2])"
    by blast
  from two [rule_format, of 1000 "10001 / 10"] e2 d b
  have a: "button_presses bm' = [2]" by simp
  from monitor_button_debounce [OF p0 l0, of two_press_trace] obtain bm'' where
    r': "monitor_button True 0 two_press_trace ButtonMonitor_init = Inr bm''"
    and two': "\<forall>t1 t2. active_edges ((0::int) = 2) ((0::int) \<noteq> 2) two_press_trace = [t1, t2]
             \<and> debounce_delay ButtonMonitor_init < t1 - 0 \<longrightarrow>
           (t2 - t1 \<le> debounce_delay ButtonMonitor_init \<longrightarrow>
              button_presses bm'' = button_presses ButtonMonitor_init @ [0])
           \<and> (debounce_delay ButtonMonitor_init < t2 - t1 \<longrightarrow>
              button_presses bm'' = button_presses ButtonMonitor_init @ [0, 0])"
    by blast
  from two' [rule_format, of 1000 "2001 / 2"] e0 d b
  have a': "button_presses bm'' = [0, 0]" by simp
  show ?thesis using p2 l2 p0 l0 e2 e0 r a r' a' by simp
qed

section \<open>Results on the stop event\<close>




















lemma monitor_passes_are_monitor_polls:
  "iw_last_state w i = Some prev \<Longrightarrow>
   monitor_polls True i ps (prev, iw_monitor w) = Inr (prev', bm') \<Longrightarrow>
   foldl (\<lambda>w t. input_tick_effect True t w) w (map (Monitor_pass i) ps)
     = w\<lparr>iw_monitor := bm', iw_last_state := (iw_last_state w)(i \<mapsto> prev')\<rparr>"
proof (induction ps arbitrary: w prev)
  case Nil
  then show ?case by (simp add: fun_upd_idem)
next
  case (Cons p ps)
  from Cons.prems(2) obtain st where
    s: "monitor_poll i p (prev, iw_monitor w) = Inr st"
    and r: "monitor_polls True i ps st = Inr (prev', bm')"
    by (auto split: sum.splits)
  let ?w1 = "w\<lparr>iw_monitor := snd st, iw_last_state := (iw_last_state w)(i \<mapsto> fst st)\<rparr>"
  have w1: "monitor_pass True i p w = ?w1"
    using Cons.prems(1) s by (simp add: monitor_pass_def)
  have "iw_last_state ?w1 i = Some (fst st)" by simp
  moreover have "monitor_polls True i ps (fst st, iw_monitor ?w1) = Inr (prev', bm')"
    using r by simp
  ultimately have ih: "foldl (\<lambda>w t. input_tick_effect True t w) ?w1 (map (Monitor_pass i) ps)
     = ?w1\<lparr>iw_monitor := bm', iw_last_state := (iw_last_state ?w1)(i \<mapsto> prev')\<rparr>"
    by (rule Cons.IH)
  have "foldl (\<lambda>w t. input_tick_effect True t w) w (map (Monitor_pass i) (p # ps))
      = foldl (\<lambda>w t. input_tick_effect True t w) ?w1 (map (Monitor_pass i) ps)"
    using w1 by simp
  also note ih
  also have "?w1\<lparr>iw_monitor := bm', iw_last_state := (iw_last_state ?w1)(i \<mapsto> prev')\<rparr>
      = w\<lparr>iw_monitor := bm', iw_last_state := (iw_last_state w)(i \<mapsto> prev')\<rparr>"
    by simp
  finally show ?case .
qed







end
